theory Spec2Isabelle
  imports Complex_Main
begin

section \<open>Values and errors\<close>

text \<open>
  Property and parameter values of the client are dynamically typed. The model covers
  the scalars of the data model: the absent value \<open>None\<close>, text (\<open>str\<close>), integers and
  booleans. Floating-point numbers and \<open>bytes\<close> objects are outside the model (so the
  \<open>isinstance(v, bytes)\<close> branch of \<open>quote_string\<close>, which decodes and then continues as
  for text, has no constructor here).
\<close>

datatype pyval = PNone | PStr string | PInt int | PBool bool

text \<open>Every exception the modelled code can raise is a value.\<close>

datatype error =
    AssertionError
  | ValueError string
  | ZeroDivisionError
  | IndexError
  | RemoteError string

subsection \<open>\<open>str(v)\<close> on the modelled values\<close>

definition digit_char :: "nat \<Rightarrow> char" where
  "digit_char d = char_of (48 + d)"

fun str_nat :: "nat \<Rightarrow> string" where
  "str_nat n = (if n < 10 then [digit_char n] else str_nat (n div 10) @ [digit_char (n mod 10)])"

declare str_nat.simps [simp del]

definition str_int :: "int \<Rightarrow> string" where
  "str_int i = (if i < 0 then CHR ''-'' # str_nat (nat (- i)) else str_nat (nat i))"

fun py_str :: "pyval \<Rightarrow> string" where
  "py_str PNone = ''None''"
| "py_str (PStr s) = s"
| "py_str (PInt i) = str_int i"
| "py_str (PBool b) = (if b then ''True'' else ''False'')"

text \<open>\<open>pd.notnull(val)\<close> on the modelled scalars: false for \<open>None\<close> only.\<close>

fun notnull :: "pyval \<Rightarrow> bool" where
  "notnull PNone = False"
| "notnull _ = True"

section \<open>rg\_utils: the value formatter\<close>

text \<open>
  \<^verbatim>\<open>
  def quote_string(v):
      if isinstance(v, bytes): v = v.decode()
      elif not isinstance(v, str): return v
      if len(v) == 0: return '""'
      if v[0] != '"': v = '"' + v
      if v[-1] != '"': v = v + '"'
      return v
  \<close>
  \<open>dq\<close> is the double-quote character.
\<close>

definition dq :: char where
  "dq = CHR 0x22"

definition quote_text :: "string \<Rightarrow> string" where
  "quote_text v =
     (if length v = 0 then [dq, dq]
      else
        let v1 = (if hd v \<noteq> dq then dq # v else v);
            v2 = (if last v1 \<noteq> dq then v1 @ [dq] else v1)
        in v2)"

fun quote_string :: "pyval \<Rightarrow> pyval" where
  "quote_string (PStr v) = PStr (quote_text v)"
| "quote_string v = v"

section \<open>rg\_utils: the identifier validator\<close>

subsection \<open>The regular expression used, with the semantics of \<open>re.match\<close>\<close>

text \<open>
  The pattern \<^verbatim>\<open>^[a-zA-Z_][0-9a-zA-Z_]*$\<close> is compiled without flags. The model has the
  four constructs it uses. \<open>re_match_from p at_start s\<close> says that the items \<open>p\<close> match a
  prefix of the remaining text \<open>s\<close> (\<open>match\<close> does not require the whole text to be
  consumed), where \<open>at_start\<close> says that nothing has been consumed so far. Without the
  \<open>MULTILINE\<close> flag, \<open>^\<close> matches at the start of the text only, and \<open>$\<close> matches at the
  end of the text and also just before a newline that is the last character of the text
  (the documented behaviour of \<open>$\<close> in the \<open>re\<close> module; \<^verbatim>\<open>\Z\<close> is the end only).
  The star is tried on one more character first and then on none (backtracking).
\<close>

datatype re_item = Caret | Dollar | OneOf "char \<Rightarrow> bool" | StarOf "char \<Rightarrow> bool"

definition newline :: char where
  "newline = CHR 0x0A"

fun re_match_from :: "re_item list \<Rightarrow> bool \<Rightarrow> string \<Rightarrow> bool" where
  "re_match_from [] at_start s = True"
| "re_match_from (Caret # p) at_start s = (at_start \<and> re_match_from p at_start s)"
| "re_match_from (Dollar # p) at_start s =
     ((s = [] \<or> s = [newline]) \<and> re_match_from p at_start s)"
| "re_match_from (OneOf cl # p) at_start s =
     (case s of [] \<Rightarrow> False | c # cs \<Rightarrow> cl c \<and> re_match_from p False cs)"
| "re_match_from (StarOf cl # p) at_start s =
     ((case s of [] \<Rightarrow> False | c # cs \<Rightarrow> cl c \<and> re_match_from (StarOf cl # p) False cs)
      \<or> re_match_from p at_start s)"

text \<open>\<open>pattern.match(s) is not None\<close>\<close>

definition re_match :: "re_item list \<Rightarrow> string \<Rightarrow> bool" where
  "re_match p s = re_match_from p True s"

definition in_range :: "char \<Rightarrow> char \<Rightarrow> char \<Rightarrow> bool" where
  "in_range lo hi c = ((of_char lo :: nat) \<le> of_char c \<and> (of_char c :: nat) \<le> of_char hi)"

text \<open>The classes \<^verbatim>\<open>[a-zA-Z_]\<close> and \<^verbatim>\<open>[0-9a-zA-Z_]\<close>.\<close>

definition ident_start :: "char \<Rightarrow> bool" where
  "ident_start c = (in_range CHR ''a'' CHR ''z'' c \<or> in_range CHR ''A'' CHR ''Z'' c \<or> c = CHR ''_'')"

definition ident_char :: "char \<Rightarrow> bool" where
  "ident_char c =
     (in_range CHR ''0'' CHR ''9'' c \<or> in_range CHR ''a'' CHR ''z'' c
      \<or> in_range CHR ''A'' CHR ''Z'' c \<or> c = CHR ''_'')"

definition VALID_CYPHER_IDENIFIER :: "re_item list" where
  "VALID_CYPHER_IDENIFIER = [Caret, OneOf ident_start, StarOf ident_char, Dollar]"

subsection \<open>\<open>validate_cypher_identifier\<close>\<close>

text \<open>
  \<^verbatim>\<open>
  def validate_cypher_identifier(identifier, none_is_okay=True, raise_on_invalid=True):
      is_valid = True
      msg = None
      if identifier is None:
          if not none_is_okay:
              is_valid = False
              msg = "Invalid Cypher identifier. Found 'None'"
      if is_valid and (identifier is not None):
          if VALID_CYPHER_IDENIFIER.match(identifier) is None:
              is_valid = False
              msg = "Invalid Cypher identifier: '{}'".format(identifier)
      if not is_valid:
          if raise_on_invalid: raise ValueError(msg)
          else: logger.warning(msg)
      return is_valid
  \<close>
  The identifier is a text or \<open>None\<close>. The result is the returned flag, or the
  \<open>ValueError\<close> with its message; the warning written to the log is not part of the
  model. \<open>sq\<close> is the single-quote character.
\<close>

definition sq :: char where
  "sq = CHR 0x27"

definition validate_cypher_identifier :: "string option \<Rightarrow> bool \<Rightarrow> bool \<Rightarrow> error + bool" where
  "validate_cypher_identifier identifier none_is_okay raise_on_invalid =
     (let (is_valid1, msg1) =
            (case identifier of
               None \<Rightarrow>
                 if \<not> none_is_okay
                 then (False, ''Invalid Cypher identifier. Found '' @ [sq] @ ''None'' @ [sq])
                 else (True, [])
             | Some _ \<Rightarrow> (True, []));
          (is_valid, msg) =
            (case identifier of
               Some s \<Rightarrow>
                 if is_valid1 \<and> \<not> re_match VALID_CYPHER_IDENIFIER s
                 then (False, ''Invalid Cypher identifier: '' @ [sq] @ s @ [sq])
                 else (is_valid1, msg1)
             | None \<Rightarrow> (is_valid1, msg1))
      in if \<not> is_valid then
           (if raise_on_invalid then Inl (ValueError msg) else Inr is_valid)
         else Inr is_valid)"

text \<open>
  The rule of the specification: the name is non-empty, begins with an ASCII letter or
  an underscore, and every later character is an ASCII letter, a digit or an underscore.
\<close>

definition spec_valid_identifier :: "string \<Rightarrow> bool" where
  "spec_valid_identifier s =
     (case s of [] \<Rightarrow> False | c # cs \<Rightarrow> ident_start c \<and> list_all ident_char cs)"

section \<open>node: the in-memory node\<close>

text \<open>
  A node has an optional remote id, an optional alias, an optional label and a
  dictionary of properties. The dictionary is an association list in insertion order
  (the order in which \<open>items()\<close> walks it); a dictionary has no key twice, which the
  theorems that need it assume as \<open>distinct (map fst ps)\<close>.
\<close>

record node =
  node_id :: "int option"
  "alias" :: "string option"
  label :: "string option"
  properties :: "(string \<times> pyval) list"

text \<open>\<open>sep.join(parts)\<close>\<close>

fun join :: "string \<Rightarrow> string list \<Rightarrow> string" where
  "join sep [] = []"
| "join sep [x] = x"
| "join sep (x # y # ys) = x @ sep @ join sep (y # ys)"

text \<open>
  The generator expression of \<open>toString\<close> and \<open>__str__\<close>:
  \<^verbatim>\<open>key+':'+str(rg_utils.quote_string(val)) for key, val in self.properties.items() if pd.notnull(val)\<close>
\<close>

definition prop_fragments :: "(string \<times> pyval) list \<Rightarrow> string list" where
  "prop_fragments ps =
     map (\<lambda>(key, val). key @ '':'' @ py_str (quote_string val))
       (filter (\<lambda>(key, val). notnull val) ps)"

text \<open>
  \<^verbatim>\<open>
  def toString(self):
      res = ""
      if self.properties:
          props = ','.join(...)
          res += '{' + props + '}'
      return res
  \<close>
\<close>

definition toString :: "node \<Rightarrow> string" where
  "toString self =
     (let res = [] in
      if properties self \<noteq> [] then
        (let props = join '','' (prop_fragments (properties self))
         in res @ ''{'' @ props @ ''}'')
      else res)"

text \<open>
  \<^verbatim>\<open>
  def __str__(self):
      res = '('
      if self.alias: res += self.alias
      if self.label: res += ':' + self.label
      if self.properties:
          props = ','.join(...)
          res += '{' + props + '}'
      res += ')'
      return res
  \<close>
  An alias or label is skipped when it is \<open>None\<close> or the empty text.
\<close>

definition node_str :: "node \<Rightarrow> string" where
  "node_str self =
     (let res = ''('';
          res = (case alias self of None \<Rightarrow> res | Some a \<Rightarrow> if a \<noteq> [] then res @ a else res);
          res = (case label self of None \<Rightarrow> res | Some l \<Rightarrow> if l \<noteq> [] then res @ '':'' @ l else res);
          res = (if properties self \<noteq> [] then
                   (let props = join '','' (prop_fragments (properties self))
                    in res @ ''{'' @ props @ ''}'')
                 else res)
      in res @ '')'')"

subsection \<open>Equality\<close>




section \<open>graph: the in-memory graph and its synchronisation\<close>

text \<open>
  Modelled from the spec: the \<open>Edge\<close> class (\<open>edge.py\<close> is not among the sources). An
  edge refers to its two endpoint nodes and has an optional relation and a dictionary of
  properties. Its rendering \<open>str(edge)\<close> is a parameter \<open>edge_str\<close> of the operations
  that send edges.
\<close>

record edge =
  src_node :: node
  dest_node :: node
  relation :: "string option"
  edge_properties :: "(string \<times> pyval) list"

text \<open>
  The fields of a \<open>Graph\<close> object. The dictionaries \<open>nodes\<close> and \<open>_nodes_to_commit\<close>
  (alias to node) are association lists in insertion order. The fields \<open>_labels\<close>,
  \<open>_relationshipTypes\<close>, \<open>_nodes_to_commit\<close> and \<open>_edges_to_commit\<close> lose their leading
  underscore, and \<open>_properties\<close> is \<open>properties_cache\<close> (\<open>properties\<close> being the field
  of the node).
\<close>

record graph =
  name :: string
  flush_rate :: int
  recreate_flag :: bool
  nodes :: "(string \<times> node) list"
  edges :: "edge list"
  labels :: "pyval list"
  properties_cache :: "pyval list"
  relationshipTypes :: "pyval list"
  nodes_to_commit :: "(string \<times> node) list"
  edges_to_commit :: "edge list"

text \<open>
  The field \<open>redis_con\<close> is the transport, which the graph only calls. A command is the
  list of the arguments of one call of \<open>execute_command\<close>; the state of the world is the
  list of all commands issued so far, oldest first; the transport's behaviour \<open>con\<close> says,
  from the commands issued before and the command issued now, whether the call raises
  (\<open>Inl\<close> with the message) or returns a reply. A command is recorded as issued also
  when the call raises.
\<close>

type_synonym command = "string list"

type_synonym 'r redis_con = "command list \<Rightarrow> command \<Rightarrow> string + 'r"

definition execute_command ::
  "'r redis_con \<Rightarrow> command \<Rightarrow> command list \<Rightarrow> (error + 'r) \<times> command list" where
  "execute_command con cmd w =
     (case con w cmd of
        Inl m \<Rightarrow> (Inl (RemoteError m), w @ [cmd])
      | Inr r \<Rightarrow> (Inr r, w @ [cmd]))"

definition CREATE_STR :: string where
  "CREATE_STR = ''CREATE ''"

text \<open>
  \<^verbatim>\<open>
  def _initialize(self):
      self.recreate_flag = False
      self.nodes = {}
      self.edges = []
      self._labels = []
      self._properties = []
      self._relationshipTypes = []
      self._nodes_to_commit = {}
      self._edges_to_commit = []
  \<close>
\<close>

definition initialize :: "graph \<Rightarrow> graph" where
  "initialize self =
     self\<lparr>recreate_flag := False, nodes := [], edges := [], labels := [],
          properties_cache := [], relationshipTypes := [],
          nodes_to_commit := [], edges_to_commit := []\<rparr>"

text \<open>
  \<^verbatim>\<open>
  def build_params_header(self, params):
      assert type(params) == dict
      params_header = "CYPHER "
      for key, value in params.items():
          if type(value) == str: value = quote_string(value)
          elif value is None: value = "null"
          params_header += str(key) + "=" + str(value) + " "
      return params_header
  \<close>
  The parameters are a dictionary from names to values, so the assertion holds.
\<close>

fun params_loop :: "string \<Rightarrow> (string \<times> pyval) list \<Rightarrow> string" where
  "params_loop params_header [] = params_header"
| "params_loop params_header ((key, value) # rest) =
     (let value1 = (case value of
                      PStr s \<Rightarrow> quote_string value
                    | PNone \<Rightarrow> PStr ''null''
                    | _ \<Rightarrow> value)
      in params_loop (params_header @ key @ ''='' @ py_str value1 @ '' '') rest)"

definition build_params_header :: "(string \<times> pyval) list \<Rightarrow> string" where
  "build_params_header params = params_loop ''CYPHER '' params"

text \<open>
  \<^verbatim>\<open>
  def query(self, query, params=None):
      if params is not None:
          query = self.build_params_header(params) + query
      if query[-1] is ',':
          query = query[:-1]
      response = self.redis_con.execute_command("GRAPH.QUERY", self.name, query, "--compact")
      res = QueryResult(self, response)
      return res
  \<close>
  \<open>query[-1]\<close> raises on the empty text. The comparison \<open>is\<close> with a one-character
  literal is true exactly when the last character is a comma (CPython keeps one object
  for each one-character ASCII text).

  Modelled from the spec: the result decoder \<open>QueryResult\<close> (\<open>query_result.py\<close> is not
  among the sources). It is an opaque collaborator that wraps the raw reply: constructing
  it returns, changes nothing in the graph and issues no command, so the result of
  \<open>query\<close> is the reply itself.
\<close>

definition query ::
  "'r redis_con \<Rightarrow> graph \<Rightarrow> string \<Rightarrow> (string \<times> pyval) list option \<Rightarrow> command list
     \<Rightarrow> (error + 'r) \<times> command list" where
  "query con self q params w =
     (let q1 = (case params of None \<Rightarrow> q | Some ps \<Rightarrow> build_params_header ps @ q)
      in if q1 = [] then (Inl IndexError, w)
         else
           (let q2 = (if last q1 = CHR '','' then butlast q1 else q1)
            in execute_command con [''GRAPH.QUERY'', name self, q2, ''--compact''] w))"

text \<open>
  \<^verbatim>\<open>
  def _commit_list(self, l, progress_bar=True):
      if len(l) == 0:
          return None
      it = enumerate(l)
      if progress_bar: it = tqdm.tqdm(it, total=len(l))
      q = CREATE_STR
      for i, item in it:
          q += str(item) + ','
          if (i % self.flush_rate) == (self.flush_rate - 1):
              ret = self.query(q)
              q = CREATE_STR
      if len(q) > len(CREATE_STR):
          self.query(q)
  \<close>
  \<open>commit_loop\<close> is the \<open>for\<close> loop from index \<open>i\<close> on, with the buffer \<open>q\<close>; it returns
  the buffer left after the walk. \<open>item_str\<close> is \<open>str\<close> on the items. The remainder by a
  zero \<open>flush_rate\<close> raises. The progress bar only reports.
\<close>

fun commit_loop ::
  "'r redis_con \<Rightarrow> graph \<Rightarrow> ('a \<Rightarrow> string) \<Rightarrow> int \<Rightarrow> 'a list \<Rightarrow> string \<Rightarrow> command list
     \<Rightarrow> (error + string) \<times> command list" where
  "commit_loop con self item_str i [] q w = (Inr q, w)"
| "commit_loop con self item_str i (item # rest) q w =
     (let q1 = q @ item_str item @ '','' in
      if flush_rate self = 0 then (Inl ZeroDivisionError, w)
      else if i mod flush_rate self = flush_rate self - 1 then
        (case query con self q1 None w of
           (Inl e, w1) \<Rightarrow> (Inl e, w1)
         | (Inr ret, w1) \<Rightarrow> commit_loop con self item_str (i + 1) rest CREATE_STR w1)
      else commit_loop con self item_str (i + 1) rest q1 w)"

definition commit_list ::
  "'r redis_con \<Rightarrow> graph \<Rightarrow> ('a \<Rightarrow> string) \<Rightarrow> 'a list \<Rightarrow> command list
     \<Rightarrow> (error + unit) \<times> command list" where
  "commit_list con self item_str l w =
     (if length l = 0 then (Inr (), w)
      else
        (case commit_loop con self item_str 0 l CREATE_STR w of
           (Inl e, w1) \<Rightarrow> (Inl e, w1)
         | (Inr q, w1) \<Rightarrow>
             if length q > length CREATE_STR then
               (case query con self q None w1 of
                  (Inl e, w2) \<Rightarrow> (Inl e, w2)
                | (Inr ret, w2) \<Rightarrow> (Inr (), w2))
             else (Inr (), w1)))"

text \<open>
  \<^verbatim>\<open>
  def _commit_nodes(self, progress_bar=True):
      self._commit_list(self._nodes_to_commit.values())
      self._nodes_to_commit = {}

  def _commit_edges(self, progress_bar=True):
      self._commit_list(self._edges_to_commit)
      self._edges_to_commit = []

  def commit(self, progress_bar=True):
      self._commit_nodes(progress_bar=progress_bar)
      self._commit_edges(progress_bar=progress_bar)
  \<close>
  Each operation returns its outcome, the graph as it is left, and the world. When a
  call raises, the statements after it are not run.
\<close>

definition commit_nodes ::
  "'r redis_con \<Rightarrow> graph \<Rightarrow> command list \<Rightarrow> (error + unit) \<times> graph \<times> command list" where
  "commit_nodes con self w =
     (case commit_list con self node_str (map snd (nodes_to_commit self)) w of
        (Inl e, w1) \<Rightarrow> (Inl e, self, w1)
      | (Inr u, w1) \<Rightarrow> (Inr (), self\<lparr>nodes_to_commit := []\<rparr>, w1))"

definition commit_edges ::
  "'r redis_con \<Rightarrow> (edge \<Rightarrow> string) \<Rightarrow> graph \<Rightarrow> command list
     \<Rightarrow> (error + unit) \<times> graph \<times> command list" where
  "commit_edges con edge_str self w =
     (case commit_list con self edge_str (edges_to_commit self) w of
        (Inl e, w1) \<Rightarrow> (Inl e, self, w1)
      | (Inr u, w1) \<Rightarrow> (Inr (), self\<lparr>edges_to_commit := []\<rparr>, w1))"

definition commit ::
  "'r redis_con \<Rightarrow> (edge \<Rightarrow> string) \<Rightarrow> graph \<Rightarrow> command list
     \<Rightarrow> (error + unit) \<times> graph \<times> command list" where
  "commit con edge_str self w =
     (case commit_nodes con self w of
        (Inl e, self1, w1) \<Rightarrow> (Inl e, self1, w1)
      | (Inr u, self1, w1) \<Rightarrow> commit_edges con edge_str self1 w1)"

text \<open>
  \<^verbatim>\<open>
  def add_edge(self, edge, validate_nodes=True):
      if validate_nodes:
          source_exists = self.nodes.get(edge.src_node.alias) is not None
          dest_exists = self.nodes.get(edge.dest_node.alias) is not None
          assert source_exists and dest_exists
      self.edges.append(edge)
      self._edges_to_commit.append(edge)
  \<close>
  \<open>nodes_get\<close> is \<open>self.nodes.get\<close>: the keys of \<open>nodes\<close> are texts, so the alias \<open>None\<close>
  is never found.
\<close>

definition nodes_get :: "(string \<times> node) list \<Rightarrow> string option \<Rightarrow> node option" where
  "nodes_get d k = (case k of None \<Rightarrow> None | Some a \<Rightarrow> map_of d a)"

definition add_edge :: "graph \<Rightarrow> edge \<Rightarrow> bool \<Rightarrow> error + graph" where
  "add_edge self e validate_nodes =
     (let appended = self\<lparr>edges := edges self @ [e],
                          edges_to_commit := edges_to_commit self @ [e]\<rparr>
      in if validate_nodes then
           (let source_exists = (nodes_get (nodes self) (alias (src_node e)) \<noteq> None);
                dest_exists = (nodes_get (nodes self) (alias (dest_node e)) \<noteq> None)
            in if source_exists \<and> dest_exists then Inr appended else Inl AssertionError)
         else Inr appended)"

text \<open>
  \<^verbatim>\<open>
  def delete(self):
      self._initialize()
      ret = self.redis_con.execute_command("GRAPH.DELETE", self.name)
      return ret
  \<close>
\<close>

definition delete ::
  "'r redis_con \<Rightarrow> graph \<Rightarrow> command list \<Rightarrow> (error + 'r) \<times> graph \<times> command list" where
  "delete con self w =
     (let self1 = initialize self
      in case execute_command con [''GRAPH.DELETE'', name self1] w of
           (ret, w1) \<Rightarrow> (ret, self1, w1))"

section \<open>The batches of a flush, as the specification describes them\<close>

text \<open>
  The specification's account of a flush is written down separately from the loop, to be
  compared with it. \<open>chunks r xs\<close> cuts \<open>xs\<close> into consecutive blocks of \<open>r\<close> items, the
  last block holding what is left (it is not defined by the specification for \<open>r = 0\<close>,
  where it is empty here).
\<close>

function chunks :: "nat \<Rightarrow> 'a list \<Rightarrow> 'a list list" where
  "chunks r xs = (if r = 0 \<or> xs = [] then [] else take r xs # chunks r (drop r xs))"
  by pat_completeness auto
termination
  by (relation "measure (\<lambda>(r, xs). length xs)") auto

declare chunks.simps [simp del]

text \<open>
  The command of one batch: \<open>GRAPH.QUERY\<close>, the name of the graph, the text \<open>CREATE\<close>
  followed by the fragments of the batch with commas between them, and \<open>--compact\<close>.
\<close>

definition create_command :: "graph \<Rightarrow> ('a \<Rightarrow> string) \<Rightarrow> 'a list \<Rightarrow> command" where
  "create_command self item_str c =
     [''GRAPH.QUERY'', name self, CREATE_STR @ join '','' (map item_str c), ''--compact'']"

definition batches :: "graph \<Rightarrow> ('a \<Rightarrow> string) \<Rightarrow> 'a list \<Rightarrow> command list" where
  "batches self item_str l =
     map (create_command self item_str) (chunks (nat (flush_rate self)) l)"

text \<open>
  Sending commands one after the other, stopping at the first call that raises;
  \<open>accepts_all con w cs\<close> says that from the world \<open>w\<close> the transport accepts each of the
  commands \<open>cs\<close> in turn.
\<close>

fun send_all ::
  "'r redis_con \<Rightarrow> command list \<Rightarrow> command list \<Rightarrow> (error + unit) \<times> command list" where
  "send_all con [] w = (Inr (), w)"
| "send_all con (c # cs) w =
     (case execute_command con c w of
        (Inl e, w1) \<Rightarrow> (Inl e, w1)
      | (Inr ret, w1) \<Rightarrow> send_all con cs w1)"

fun accepts_all :: "'r redis_con \<Rightarrow> command list \<Rightarrow> command list \<Rightarrow> bool" where
  "accepts_all con w [] = True"
| "accepts_all con w (c # cs) =
     (case con w c of Inl m \<Rightarrow> False | Inr ret \<Rightarrow> accepts_all con (w @ [c]) cs)"

text \<open>The buffer of the loop after the items \<open>c\<close> were added to the empty buffer.\<close>

definition buffer :: "('a \<Rightarrow> string) \<Rightarrow> 'a list \<Rightarrow> string" where
  "buffer item_str c = CREATE_STR @ concat (map (\<lambda>x. item_str x @ '','') c)"

section \<open>Values of the worked examples\<close>

text \<open>
  \<open>graph_init\<close> is the constructor: \<open>Graph(name, redis_con, flush_rate)\<close> stores its
  arguments and calls \<open>_initialize\<close>.
\<close>

definition graph_init :: "string \<Rightarrow> int \<Rightarrow> graph" where
  "graph_init nm rate =
     \<lparr>name = nm, flush_rate = rate, recreate_flag = False, nodes = [], edges = [],
        labels = [], properties_cache = [], relationshipTypes = [],
        nodes_to_commit = [], edges_to_commit = []\<rparr>"

definition person :: "string \<Rightarrow> node" where
  "person a =
     \<lparr>node_id = None, alias = Some a, label = Some ''Person'', properties = [(''name'', PStr a)]\<rparr>"

definition knows :: "node \<Rightarrow> node \<Rightarrow> edge" where
  "knows s d = \<lparr>src_node = s, dest_node = d, relation = Some ''knows'', edge_properties = []\<rparr>"

text \<open>A graph with flush rate 2 and five nodes added and not yet sent.\<close>

definition five_pending :: graph where
  "five_pending =
     (graph_init ''g'' 2)
       \<lparr>nodes := map (\<lambda>a. (a, person a)) [''a'', ''b'', ''c'', ''d'', ''e''],
        nodes_to_commit := map (\<lambda>a. (a, person a)) [''a'', ''b'', ''c'', ''d'', ''e'']\<rparr>"

text \<open>The same graph after the nodes were sent and one edge was added.\<close>

definition one_pending_edge :: graph where
  "one_pending_edge =
     five_pending
       \<lparr>nodes_to_commit := [],
        edges := [knows (person ''a'') (person ''b'')],
        edges_to_commit := [knows (person ''a'') (person ''b'')]\<rparr>"

text \<open>A transport that accepts every command, and one whose \<open>k\<close>-th call (from 0) raises.\<close>

definition always_ok :: "unit redis_con" where
  "always_ok w c = Inr ()"

definition fails_at :: "nat \<Rightarrow> unit redis_con" where
  "fails_at k w c = (if length w = k then Inl ''connection lost'' else Inr ())"

text \<open>A rendering of edges for the examples: source alias, relation, destination alias.\<close>

definition example_edge_str :: "edge \<Rightarrow> string" where
  "example_edge_str e =
     ''('' @ (case alias (src_node e) of None \<Rightarrow> [] | Some a \<Rightarrow> a) @ '')-[:''
     @ (case relation e of None \<Rightarrow> [] | Some r \<Rightarrow> r) @ '']->(''
     @ (case alias (dest_node e) of None \<Rightarrow> [] | Some a \<Rightarrow> a) @ '')''"

section \<open>The value formatter\<close>

lemma quote_text_quoted:
  "quote_text v \<noteq> [] \<and> hd (quote_text v) = dq \<and> last (quote_text v) = dq"
  by (cases v) (auto simp: quote_text_def Let_def)

lemma quote_text_fixed:
  "v \<noteq> [] \<Longrightarrow> hd v = dq \<Longrightarrow> last v = dq \<Longrightarrow> quote_text v = v"
  by (simp add: quote_text_def)

lemma quote_text_idem: "quote_text (quote_text v) = quote_text v"
  using quote_text_quoted [of v] by (simp add: quote_text_fixed)

lemma quote_text_nonempty:
  "v \<noteq> [] \<Longrightarrow>
   quote_text v = (if hd v = dq then [] else [dq]) @ v @ (if last v = dq then [] else [dq])"
  by (simp add: quote_text_def Let_def)

text \<open>
  Claim C7. Quoting is idempotent on text: for every text \<open>v\<close>, quoting the quoted text
  gives the quoted text again. The empty text becomes two double quotes, and a
  non-empty text gets a quote in front exactly when its first character is not a quote,
  and a quote behind exactly when its last character is not a quote.
\<close>

theorem quote_string_idempotent:
  "quote_string (quote_string (PStr v)) = quote_string (PStr v)
   \<and> quote_string (PStr []) = PStr [dq, dq]
   \<and> (v \<noteq> [] \<longrightarrow>
        quote_string (PStr v) =
          PStr ((if hd v = dq then [] else [dq]) @ v @ (if last v = dq then [] else [dq])))"
  by (simp add: quote_text_idem quote_text_nonempty) (simp add: quote_text_def)

theorem quote_string_idempotent_witness:
  "''Bob'' \<noteq> [] \<and> quote_string (PStr ''Bob'') = PStr ''\"Bob\"''
   \<and> quote_string (quote_string (PStr ''Bob'')) = PStr ''\"Bob\"''"
  using quote_string_idempotent [of "''Bob''"] by (simp add: dq_def quote_text_def)

text \<open>
  Claim C3, as stated: the formatter renders \<open>None\<close> as the text \<open>null\<close>. It does not:
  \<open>quote_string\<close> returns every value that is not text as it is, so \<open>None\<close> comes back
  as \<open>None\<close>, whose text form is \<open>None\<close>.
\<close>

theorem quote_string_None_not_null:
  "quote_string PNone \<noteq> PStr ''null'' \<and> py_str (quote_string PNone) \<noteq> ''null''"
  by simp

lemma params_loop_append:
  "params_loop h (ps @ qs) = params_loop (params_loop h ps) qs"
  by (induction h ps rule: params_loop.induct) (simp_all add: Let_def)

text \<open>
  Claim C3, amended: \<open>quote_string\<close> returns \<open>None\<close> unchanged (its text form is
  \<open>None\<close>); the literal \<open>null\<close> is written by \<open>build_params_header\<close>, which renders a
  parameter \<open>k\<close> whose value is \<open>None\<close> as \<open>k=null\<close> followed by a space.
\<close>

theorem quote_string_None_passes:
  "quote_string PNone = PNone
   \<and> py_str (quote_string PNone) = ''None''
   \<and> build_params_header (ps @ [(k, PNone)]) = build_params_header ps @ k @ ''=null ''"
  by (simp add: build_params_header_def params_loop_append)

theorem quote_string_None_passes_witness:
  "build_params_header [(''x'', PNone)] = ''CYPHER x=null ''"
  using quote_string_None_passes [of "[]" "''x''"] by (simp add: build_params_header_def)

section \<open>The identifier validator\<close>

lemma newline_not_ident_char: "\<not> ident_char newline"
  by (simp add: ident_char_def in_range_def newline_def)

lemma star_dollar_match:
  "re_match_from [StarOf ident_char, Dollar] b cs \<longleftrightarrow>
     list_all ident_char cs \<or> (\<exists>t. cs = t @ [newline] \<and> list_all ident_char t)"
proof (induction cs arbitrary: b)
  case Nil
  then show ?case by simp
next
  case (Cons c cs)
  show ?case
  proof (cases "ident_char c")
    case True
    then have "c \<noteq> newline" using newline_not_ident_char by auto
    with True Cons.IH [of False] show ?thesis
      by (auto simp: Cons_eq_append_conv)
  next
    case False
    then show ?thesis by (auto simp: Cons_eq_append_conv)
  qed
qed

lemma spec_valid_identifier_simps:
  "spec_valid_identifier [] = False"
  "spec_valid_identifier (c # cs) = (ident_start c \<and> list_all ident_char cs)"
  by (simp_all add: spec_valid_identifier_def)

lemma spec_valid_identifier_newline:
  "(\<exists>t. c # cs = t @ [newline] \<and> spec_valid_identifier t) \<longleftrightarrow>
     ident_start c \<and> (\<exists>t. cs = t @ [newline] \<and> list_all ident_char t)"
proof
  assume "\<exists>t. c # cs = t @ [newline] \<and> spec_valid_identifier t"
  then obtain t where t: "c # cs = t @ [newline]" "spec_valid_identifier t" by blast
  then obtain t' where "t = c # t'" "cs = t' @ [newline]"
    by (cases t) (auto simp: spec_valid_identifier_simps)
  with t show "ident_start c \<and> (\<exists>t. cs = t @ [newline] \<and> list_all ident_char t)"
    by (auto simp: spec_valid_identifier_simps)
next
  assume "ident_start c \<and> (\<exists>t. cs = t @ [newline] \<and> list_all ident_char t)"
  then obtain t where "ident_start c" "cs = t @ [newline]" "list_all ident_char t" by blast
  then have "c # cs = (c # t) @ [newline] \<and> spec_valid_identifier (c # t)"
    by (simp add: spec_valid_identifier_simps)
  then show "\<exists>t. c # cs = t @ [newline] \<and> spec_valid_identifier t" by blast
qed

text \<open>
  What the compiled pattern accepts: the names of the rule, and also every such name
  followed by one newline.
\<close>

lemma VALID_CYPHER_IDENIFIER_match:
  "re_match VALID_CYPHER_IDENIFIER s \<longleftrightarrow>
     spec_valid_identifier s \<or> (\<exists>t. s = t @ [newline] \<and> spec_valid_identifier t)"
proof (cases s)
  case Nil
  then show ?thesis
    by (simp add: re_match_def VALID_CYPHER_IDENIFIER_def spec_valid_identifier_simps)
next
  case (Cons c cs)
  have "re_match VALID_CYPHER_IDENIFIER (c # cs) \<longleftrightarrow>
          ident_start c \<and> re_match_from [StarOf ident_char, Dollar] False cs"
    by (simp add: re_match_def VALID_CYPHER_IDENIFIER_def)
  also have "\<dots> \<longleftrightarrow> ident_start c \<and>
      (list_all ident_char cs \<or> (\<exists>t. cs = t @ [newline] \<and> list_all ident_char t))"
    by (simp only: star_dollar_match)
  also have "\<dots> \<longleftrightarrow> spec_valid_identifier (c # cs)
       \<or> (\<exists>t. c # cs = t @ [newline] \<and> spec_valid_identifier t)"
    unfolding spec_valid_identifier_newline spec_valid_identifier_simps by blast
  finally show ?thesis using Cons by simp
qed

lemma validate_cypher_identifier_text:
  "validate_cypher_identifier (Some s) none_is_okay raise_on_invalid =
     (if re_match VALID_CYPHER_IDENIFIER s then Inr True
      else if raise_on_invalid
        then Inl (ValueError (''Invalid Cypher identifier: '' @ [sq] @ s @ [sq]))
        else Inr False)"
  by (simp add: validate_cypher_identifier_def)

lemma validate_cypher_identifier_None:
  "validate_cypher_identifier None True raise_on_invalid = Inr True"
  by (simp add: validate_cypher_identifier_def)

lemma validate_cypher_identifier_accepts:
  "spec_valid_identifier s \<Longrightarrow>
   validate_cypher_identifier (Some s) none_is_okay raise_on_invalid = Inr True"
  by (simp add: validate_cypher_identifier_text VALID_CYPHER_IDENIFIER_match)

text \<open>
  Claim C8. The validator is to accept a name if and only if the name follows the rule.
  The code accepts the two-character name made of the letter \<open>a\<close> and a newline, which
  does not follow the rule: with the default arguments the call returns \<open>True\<close> where it
  should raise.
\<close>

theorem validate_accepts_trailing_newline:
  "validate_cypher_identifier (Some [CHR ''a'', newline]) True True = Inr True
   \<and> \<not> spec_valid_identifier [CHR ''a'', newline]"
  by (simp add: validate_cypher_identifier_def re_match_def VALID_CYPHER_IDENIFIER_def
      spec_valid_identifier_def ident_start_def ident_char_def in_range_def newline_def)

section \<open>Node rendering\<close>

lemma prop_fragments_null:
  "prop_fragments (xs @ (k, PNone) # ys) = prop_fragments (xs @ ys)"
  by (simp add: prop_fragments_def)

lemma prop_fragments_length:
  "length (prop_fragments ps) = length (filter (\<lambda>(k, v). v \<noteq> PNone) ps)"
proof -
  have "notnull v \<longleftrightarrow> v \<noteq> PNone" for v by (cases v) simp_all
  then show ?thesis by (simp add: prop_fragments_def)
qed

lemma str_nat_last: "str_nat n \<noteq> [] \<and> last (str_nat n) = digit_char (n mod 10)"
proof (cases "n < 10")
  case True
  then show ?thesis by (simp add: str_nat.simps [of n])
next
  case False
  then show ?thesis by (simp add: str_nat.simps [of n])
qed

lemma digit_char_not_l: "digit_char (n mod 10) \<noteq> CHR ''l''"
proof
  assume "digit_char (n mod 10) = CHR ''l''"
  then have "of_char (digit_char (n mod 10)) = (of_char CHR ''l'' :: nat)" by simp
  then have "(48 + n mod 10) mod 256 = (108 :: nat)" by (simp add: digit_char_def)
  moreover have "n mod 10 < 10" by simp
  ultimately show False by simp
qed

text \<open>The text of a rendered value is not empty and never ends with the letter \<open>l\<close>.\<close>

lemma rendered_value_last:
  "notnull v \<Longrightarrow> py_str (quote_string v) \<noteq> [] \<and> last (py_str (quote_string v)) \<noteq> CHR ''l''"
proof (cases v)
  case PNone
  assume "notnull v"
  with PNone show ?thesis by simp
next
  case (PStr s)
  then show ?thesis using quote_text_quoted [of s] by (simp add: dq_def)
next
  case (PInt i)
  then show ?thesis using str_nat_last digit_char_not_l by (simp add: str_int_def)
next
  case (PBool b)
  then show ?thesis by simp
qed

lemma prop_fragments_never_null: "k @ '':null'' \<notin> set (prop_fragments ps)"
proof
  assume "k @ '':null'' \<in> set (prop_fragments ps)"
  then obtain key val
    where kv: "notnull val" "k @ '':null'' = key @ '':'' @ py_str (quote_string val)"
    by (auto simp: prop_fragments_def)
  from kv(2) have "last (k @ '':null'') = last (key @ '':'' @ py_str (quote_string val))"
    by simp
  with rendered_value_last [OF kv(1)] show False by simp
qed

text \<open>
  Claim C6. The node with alias \<open>a\<close>, label \<open>Person\<close> and the one property \<open>name\<close> with
  value \<open>Bob\<close> renders as \<open>(a:Person{name:"Bob"})\<close>. For every node, a property whose
  value is null is left out of the property block: the block has one fragment for each
  property that is not null, no fragment reads \<open>k:null\<close>, and a null property put
  anywhere among the properties changes neither the fragments nor, when another
  property is there, the rendered node.
\<close>

theorem node_str_omits_null:
  "node_str \<lparr>node_id = None, alias = Some ''a'', label = Some ''Person'',
             properties = [(''name'', PStr ''Bob'')]\<rparr> = ''(a:Person{name:\"Bob\"})''
   \<and> length (prop_fragments ps) = length (filter (\<lambda>(k, v). v \<noteq> PNone) ps)
   \<and> k @ '':null'' \<notin> set (prop_fragments ps)
   \<and> prop_fragments (xs @ (k, PNone) # ys) = prop_fragments (xs @ ys)
   \<and> (xs @ ys \<noteq> [] \<longrightarrow>
        node_str (n\<lparr>properties := xs @ (k, PNone) # ys\<rparr>) = node_str (n\<lparr>properties := xs @ ys\<rparr>))"
proof -
  have "node_str \<lparr>node_id = None, alias = Some ''a'', label = Some ''Person'',
             properties = [(''name'', PStr ''Bob'')]\<rparr> = ''(a:Person{name:\"Bob\"})''"
    by (simp add: node_str_def prop_fragments_def quote_text_def dq_def)
  moreover have "xs @ ys \<noteq> [] \<longrightarrow>
        node_str (n\<lparr>properties := xs @ (k, PNone) # ys\<rparr>) = node_str (n\<lparr>properties := xs @ ys\<rparr>)"
    by (simp add: node_str_def prop_fragments_null del: append_is_Nil_conv)
  ultimately show ?thesis
    using prop_fragments_null prop_fragments_length prop_fragments_never_null by blast
qed

theorem node_str_omits_null_witness:
  "[(''name'', PStr ''Bob'')] @ [] \<noteq> []
   \<and> node_str \<lparr>node_id = None, alias = Some ''a'', label = Some ''Person'',
        properties = [(''name'', PStr ''Bob''), (''age'', PNone)]\<rparr> = ''(a:Person{name:\"Bob\"})''"
  using node_str_omits_null [of "[]" "''age''" "[(''name'', PStr ''Bob'')]" "[]"
      "\<lparr>node_id = None, alias = Some ''a'', label = Some ''Person'', properties = []\<rparr>"]
  by simp

lemma prop_fragments_all_null:
  "\<forall>(k, v) \<in> set ps. v = PNone \<Longrightarrow> prop_fragments ps = []"
  by (induction ps) (auto simp: prop_fragments_def)

text \<open>
  Claim C10. A node whose properties are not empty and all have the value null still
  renders a property block, and the block is empty: \<open>toString\<close> gives \<open>{}\<close>, and the
  pattern is the opening parenthesis, the alias, the label with its colon, \<open>{}\<close> and the
  closing parenthesis.
\<close>

theorem node_str_all_null:
  assumes "properties n \<noteq> []" and "\<forall>(k, v) \<in> set (properties n). v = PNone"
  shows "toString n = ''{}''
    \<and> node_str n =
        ''('' @ (case alias n of None \<Rightarrow> [] | Some a \<Rightarrow> a)
        @ (case label n of None \<Rightarrow> [] | Some l \<Rightarrow> if l = [] then [] else '':'' @ l)
        @ ''{}'' @ '')''"
  using assms
  by (simp add: toString_def node_str_def Let_def prop_fragments_all_null split: option.splits)

theorem node_str_all_null_witness:
  "node_str \<lparr>node_id = None, alias = Some ''a'', label = Some ''Person'',
        properties = [(''name'', PNone), (''age'', PNone)]\<rparr> = ''(a:Person{})''
   \<and> toString \<lparr>node_id = None, alias = Some ''a'', label = Some ''Person'',
        properties = [(''name'', PNone), (''age'', PNone)]\<rparr> = ''{}''"
  using node_str_all_null [of "\<lparr>node_id = None, alias = Some ''a'', label = Some ''Person'',
        properties = [(''name'', PNone), (''age'', PNone)]\<rparr>"]
  by simp

section \<open>Node equality\<close>






section \<open>The batched flush\<close>

lemma concat_commas:
  "c \<noteq> [] \<Longrightarrow> concat (map (\<lambda>x. f x @ '','') c) = join '','' (map f c) @ '',''"
proof (induction c)
  case Nil
  then show ?case by simp
next
  case (Cons x c)
  then show ?case by (cases c) simp_all
qed

lemma buffer_snoc: "buffer f (c @ [x]) = buffer f c @ f x @ '',''"
  by (simp add: buffer_def)

lemma buffer_Nil: "buffer f [] = CREATE_STR"
  by (simp add: buffer_def)

lemma query_buffer:
  "c \<noteq> [] \<Longrightarrow> query con g (buffer f c) None w = execute_command con (create_command g f c) w"
  by (simp add: query_def buffer_def concat_commas create_command_def CREATE_STR_def Let_def
      butlast_append)

lemma buffer_length: "length (buffer f c) > length CREATE_STR \<longleftrightarrow> c \<noteq> []"
  by (cases c) (simp_all add: buffer_def)

text \<open>Within a batch that does not fill up, the loop only extends the buffer.\<close>

lemma commit_loop_partial:
  assumes "flush_rate g = int r" and "0 < r"
  shows "i mod int r = int (length pend) \<Longrightarrow> length pend + length xs < r \<Longrightarrow>
     commit_loop con g f i xs (buffer f pend) w = (Inr (buffer f (pend @ xs)), w)"
proof (induction xs arbitrary: i pend)
  case Nil
  then show ?case by simp
next
  case (Cons x xs)
  from Cons.prems have lt: "length pend + 1 < r" by simp
  then have no: "i mod int r \<noteq> int r - 1" using Cons.prems(1) by simp
  have nxt: "(i + 1) mod int r = int (length (pend @ [x]))"
  proof -
    have "(i + 1) mod int r = (i mod int r + 1) mod int r" by (simp add: mod_add_left_eq)
    also have "\<dots> = (int (length pend) + 1) mod int r" using Cons.prems(1) by simp
    also have "\<dots> = int (length pend) + 1" using lt by simp
    finally show ?thesis by simp
  qed
  have "commit_loop con g f i (x # xs) (buffer f pend) w
      = commit_loop con g f (i + 1) xs (buffer f (pend @ [x])) w"
    using assms no by (simp add: buffer_snoc)
  also have "\<dots> = (Inr (buffer f ((pend @ [x]) @ xs)), w)"
    using Cons.prems(2) by (intro Cons.IH [OF nxt]) simp
  finally show ?case by simp
qed

text \<open>The item that fills a batch makes the loop send it and start an empty buffer.\<close>

lemma commit_loop_full:
  assumes "flush_rate g = int r" and "0 < r"
  shows "i mod int r = int (length pend) \<Longrightarrow> length pend + length xs = r \<Longrightarrow> xs \<noteq> [] \<Longrightarrow>
     c = pend @ xs \<Longrightarrow> j = i + int (length xs) \<Longrightarrow>
     commit_loop con g f i (xs @ rest) (buffer f pend) w =
       (case query con g (buffer f c) None w of
          (Inl e, w1) \<Rightarrow> (Inl e, w1)
        | (Inr ret, w1) \<Rightarrow> commit_loop con g f j rest CREATE_STR w1)"
proof (induction xs arbitrary: i pend)
  case Nil
  then show ?case by simp
next
  case (Cons x xs)
  show ?case
  proof (cases "xs = []")
    case True
    with Cons.prems have "i mod int r = int r - 1" "j = i + 1" "c = pend @ [x]" by simp_all
    with True assms show ?thesis by (auto simp: buffer_snoc)
  next
    case False
    with Cons.prems have lt: "length pend + 1 < r" by (cases xs) simp_all
    then have no: "i mod int r \<noteq> int r - 1" using Cons.prems(1) by simp
    have nxt: "(i + 1) mod int r = int (length (pend @ [x]))"
    proof -
      have "(i + 1) mod int r = (i mod int r + 1) mod int r" by (simp add: mod_add_left_eq)
      also have "\<dots> = (int (length pend) + 1) mod int r" using Cons.prems(1) by simp
      also have "\<dots> = int (length pend) + 1" using lt by simp
      finally show ?thesis by simp
    qed
    have "commit_loop con g f i ((x # xs) @ rest) (buffer f pend) w
        = commit_loop con g f (i + 1) (xs @ rest) (buffer f (pend @ [x])) w"
      using assms no by (simp add: buffer_snoc)
    also have "\<dots> =
       (case query con g (buffer f c) None w of
          (Inl e, w1) \<Rightarrow> (Inl e, w1)
        | (Inr ret, w1) \<Rightarrow> commit_loop con g f j rest CREATE_STR w1)"
      using Cons.prems False by (intro Cons.IH [OF nxt]) simp_all
    finally show ?thesis .
  qed
qed

lemma chunks_Nil: "chunks r [] = []"
  by (simp add: chunks.simps)

lemma chunks_short: "0 < r \<Longrightarrow> xs \<noteq> [] \<Longrightarrow> length xs \<le> r \<Longrightarrow> chunks r xs = [xs]"
  by (simp add: chunks.simps [of r xs] chunks_Nil)

lemma chunks_long:
  "0 < r \<Longrightarrow> r \<le> length xs \<Longrightarrow> chunks r xs = take r xs # chunks r (drop r xs)"
  by (subst chunks.simps) auto

text \<open>
  The walk and the sending of what is left, started with an empty buffer at an index
  that is a multiple of the flush rate, send the batches in order and stop at the first
  one that fails.
\<close>

lemma commit_loop_chunks:
  assumes "flush_rate g = int r" and "0 < r"
  shows "i mod int r = 0 \<Longrightarrow>
     (case commit_loop con g f i xs CREATE_STR w of
        (Inl e, w1) \<Rightarrow> (Inl e, w1)
      | (Inr q, w1) \<Rightarrow>
          if length q > length CREATE_STR then
            (case query con g q None w1 of
               (Inl e, w2) \<Rightarrow> (Inl e, w2)
             | (Inr ret, w2) \<Rightarrow> (Inr (), w2))
          else (Inr (), w1))
     = send_all con (map (create_command g f) (chunks r xs)) w"
proof (induction "length xs" arbitrary: xs i w rule: less_induct)
  case less
  show ?case
  proof (cases "length xs < r")
    case True
    show ?thesis
    proof (cases "xs = []")
      case True
      then show ?thesis by (simp add: chunks_Nil)
    next
      case False
      have "commit_loop con g f i xs (buffer f []) w = (Inr (buffer f ([] @ xs)), w)"
        using True less.prems by (intro commit_loop_partial [OF assms]) simp_all
      then have "commit_loop con g f i xs CREATE_STR w = (Inr (buffer f xs), w)"
        by (simp add: buffer_Nil)
      with False True assms(2) show ?thesis
        by (simp add: buffer_length query_buffer chunks_short split: prod.splits sum.splits)
    qed
  next
    case False
    define a where "a = take r xs"
    define b where "b = drop r xs"
    from False assms(2) have a: "length a = r" "a \<noteq> []" and xs: "xs = a @ b"
      and b: "length b < length xs"
      by (auto simp: a_def b_def)
    have ch: "chunks r xs = a # chunks r b"
      using False assms(2) by (simp add: chunks_long a_def b_def)
    have "commit_loop con g f i (a @ b) (buffer f []) w =
       (case query con g (buffer f a) None w of
          (Inl e, w1) \<Rightarrow> (Inl e, w1)
        | (Inr ret, w1) \<Rightarrow> commit_loop con g f (i + int r) b CREATE_STR w1)"
      using a less.prems by (intro commit_loop_full [OF assms]) simp_all
    then have step: "commit_loop con g f i xs CREATE_STR w =
       (case execute_command con (create_command g f a) w of
          (Inl e, w1) \<Rightarrow> (Inl e, w1)
        | (Inr ret, w1) \<Rightarrow> commit_loop con g f (i + int r) b CREATE_STR w1)"
      using a by (simp add: buffer_Nil xs query_buffer)
    have idx: "(i + int r) mod int r = 0" using less.prems by simp
    obtain res w1 where ex: "execute_command con (create_command g f a) w = (res, w1)"
      by (cases "execute_command con (create_command g f a) w")
    show ?thesis
    proof (cases res)
      case (Inl e)
      with ex show ?thesis by (simp add: step ch)
    next
      case (Inr ret)
      with ex show ?thesis using less.hyps [OF b idx, of w1] by (simp add: step ch)
    qed
  qed
qed

text \<open>
  The loop refines the specification's account: with a positive flush rate, flushing a
  list sends its batches in order and stops at the first batch that the transport
  refuses.
\<close>

lemma commit_list_send_all:
  assumes "0 < flush_rate g"
  shows "commit_list con g f l w = send_all con (batches g f l) w"
proof -
  from assms obtain r where r: "flush_rate g = int r" "0 < r"
    by (metis pos_int_cases)
  show ?thesis
  proof (cases "l = []")
    case True
    then show ?thesis by (simp add: commit_list_def batches_def chunks_Nil)
  next
    case False
    then show ?thesis
      using commit_loop_chunks [OF r, of 0 con f l w] r
      by (simp add: commit_list_def batches_def)
  qed
qed

lemma accepts_all_append:
  "accepts_all con w (as @ bs) \<longleftrightarrow> accepts_all con w as \<and> accepts_all con (w @ as) bs"
  by (induction as arbitrary: w) (simp_all split: sum.splits)

lemma send_all_append:
  "send_all con (as @ bs) w =
     (case send_all con as w of
        (Inl e, w1) \<Rightarrow> (Inl e, w1)
      | (Inr u, w1) \<Rightarrow> send_all con bs w1)"
  by (induction as arbitrary: w) (simp_all add: execute_command_def split: sum.splits)

lemma send_all_accepts:
  "accepts_all con w cs \<Longrightarrow> send_all con cs w = (Inr (), w @ cs)"
  by (induction cs arbitrary: w) (simp_all add: execute_command_def split: sum.splits)

lemma send_all_Inr:
  "send_all con cs w = (Inr u, w') \<Longrightarrow> accepts_all con w cs \<and> w' = w @ cs"
proof (induction cs arbitrary: w)
  case Nil
  then show ?case by simp
next
  case (Cons c cs)
  from Cons.prems obtain ret where ret: "con w c = Inr ret"
    and rest: "send_all con cs (w @ [c]) = (Inr u, w')"
    by (auto simp: execute_command_def split: sum.splits)
  from Cons.IH [OF rest] ret show ?case by simp
qed

lemma send_all_fails:
  "k < length cs \<Longrightarrow> accepts_all con w (take k cs) \<Longrightarrow> con (w @ take k cs) (cs ! k) = Inl m \<Longrightarrow>
   send_all con cs w = (Inl (RemoteError m), w @ take (Suc k) cs)"
proof (induction cs arbitrary: k w)
  case Nil
  then show ?case by simp
next
  case (Cons c cs)
  show ?case
  proof (cases k)
    case 0
    with Cons.prems show ?thesis by (simp add: execute_command_def)
  next
    case (Suc k')
    with Cons.prems obtain ret where ret: "con w c = Inr ret"
      and acc: "accepts_all con (w @ [c]) (take k' cs)"
      by (auto split: sum.splits)
    from Cons.prems Suc have "k' < length cs" "con ((w @ [c]) @ take k' cs) (cs ! k') = Inl m"
      by simp_all
    from Cons.IH [OF this(1) acc this(2)] ret Suc show ?thesis
      by (simp add: execute_command_def)
  qed
qed

lemma concat_chunks: "0 < r \<Longrightarrow> concat (chunks r xs) = xs"
proof (induction "length xs" arbitrary: xs rule: less_induct)
  case less
  show ?case
  proof (cases "xs = []")
    case True
    then show ?thesis by (simp add: chunks_Nil)
  next
    case False
    with less.prems have "length (drop r xs) < length xs" by simp
    from less.hyps [OF this less.prems] False less.prems show ?thesis
      by (simp add: chunks.simps [of r xs])
  qed
qed

lemma map_length_chunks:
  "0 < r \<Longrightarrow>
   map length (chunks r xs) =
     replicate (length xs div r) r @ (if length xs mod r = 0 then [] else [length xs mod r])"
proof (induction "length xs" arbitrary: xs rule: less_induct)
  case less
  show ?case
  proof (cases "length xs < r")
    case True
    show ?thesis
    proof (cases "xs = []")
      case True
      then show ?thesis by (simp add: chunks_Nil)
    next
      case False
      with True less.prems show ?thesis by (simp add: chunks_short)
    qed
  next
    case False
    with less.prems have sh: "length (drop r xs) < length xs" by simp
    from False have d: "length xs div r = Suc ((length xs - r) div r)"
      "length xs mod r = (length xs - r) mod r"
      using less.prems by (simp_all add: le_div_geq le_mod_geq)
    from less.hyps [OF sh less.prems] False less.prems show ?thesis
      by (simp add: chunks_long d)
  qed
qed

lemma length_chunks_div:
  assumes "0 < r"
  shows "length (chunks r xs) = length xs div r + (if length xs mod r = 0 then 0 else 1)"
proof -
  have "length (chunks r xs) = length (map length (chunks r xs))" by simp
  also have "\<dots> = length xs div r + (if length xs mod r = 0 then 0 else 1)"
    by (simp only: map_length_chunks [OF assms]) simp
  finally show ?thesis .
qed

lemma ceiling_nat_div:
  assumes "0 < r"
  shows "nat \<lceil>real n / real r\<rceil> = n div r + (if n mod r = 0 then 0 else 1)"
proof -
  have "\<lceil>real n / real r\<rceil> = \<lceil>(of_int (int n) :: real) / of_int (int r)\<rceil>" by simp
  also have "\<dots> = - (- int n div int r)" by (rule ceiling_divide_eq_div)
  also have "\<dots> = int (n div r + (if n mod r = 0 then 0 else 1))"
    using assms by (simp add: zdiv_zminus1_eq_if zdiv_int [symmetric] zmod_int [symmetric]
        del: of_nat_div of_nat_mod)
  finally show ?thesis by simp
qed

lemma chunks_Cons:
  "chunks r (x # xs) = (if r = 0 then [] else take r (x # xs) # chunks r (drop r (x # xs)))"
  by (simp add: chunks.simps [of r "x # xs"])

lemma five_pending_batches:
  "batches five_pending node_str (map snd (nodes_to_commit five_pending)) =
     [[''GRAPH.QUERY'', ''g'', ''CREATE (a:Person{name:\"a\"}),(b:Person{name:\"b\"})'', ''--compact''],
      [''GRAPH.QUERY'', ''g'', ''CREATE (c:Person{name:\"c\"}),(d:Person{name:\"d\"})'', ''--compact''],
      [''GRAPH.QUERY'', ''g'', ''CREATE (e:Person{name:\"e\"})'', ''--compact'']]"
  by (simp add: batches_def five_pending_def graph_init_def chunks_Cons chunks_Nil
      create_command_def CREATE_STR_def person_def node_str_def prop_fragments_def
      quote_text_def dq_def)

lemma one_pending_edge_batches:
  "batches one_pending_edge example_edge_str (edges_to_commit one_pending_edge) =
     [[''GRAPH.QUERY'', ''g'', ''CREATE (a)-[:knows]->(b)'', ''--compact'']]"
  by (simp add: batches_def one_pending_edge_def five_pending_def graph_init_def chunks_Cons
      chunks_Nil create_command_def CREATE_STR_def person_def knows_def example_edge_str_def)

text \<open>
  Claim C1. With a positive flush rate \<open>r\<close> and \<open>n > 0\<close> pending nodes, the commands of
  the node flush are the \<open>CREATE\<close> commands of the consecutive blocks of \<open>r\<close> pending
  nodes (in order, every node in exactly one block): there are \<open>ceil(n/r)\<close> of them, the
  first \<open>n div r\<close> with \<open>r\<close> fragments each and, when \<open>r\<close> does not divide \<open>n\<close>, a last
  one with the \<open>n mod r\<close> fragments left. When the transport accepts the commands,
  \<open>commit\<close> succeeds, has issued exactly these commands followed by those of the pending
  edges, and leaves no pending node (and no pending edge). With flush rate 2 and 5
  pending nodes the blocks have the sizes 2, 2, 1. With no pending node the node flush
  issues no command, and with nothing pending \<open>commit\<close> issues none.
\<close>

theorem commit_batches:
  fixes g :: graph and con :: "'r redis_con" and edge_str :: "edge \<Rightarrow> string"
  defines "ns \<equiv> map snd (nodes_to_commit g)"
    and "r \<equiv> nat (flush_rate g)"
    and "NB \<equiv> batches g node_str (map snd (nodes_to_commit g))"
    and "EB \<equiv> batches g edge_str (edges_to_commit g)"
  shows
    "(0 < flush_rate g \<and> ns \<noteq> [] \<longrightarrow>
        NB = map (create_command g node_str) (chunks r ns)
        \<and> concat (chunks r ns) = ns
        \<and> length NB = nat \<lceil>real (length ns) / real r\<rceil>
        \<and> map length (chunks r ns) =
            replicate (length ns div r) r
            @ (if length ns mod r = 0 then [] else [length ns mod r])
        \<and> (accepts_all con w (NB @ EB) \<longrightarrow>
             commit con edge_str g w =
               (Inr (), g\<lparr>nodes_to_commit := [], edges_to_commit := []\<rparr>, w @ NB @ EB)))
     \<and> (flush_rate g = 2 \<and> length ns = 5 \<longrightarrow> map length (chunks r ns) = [2, 2, 1])
     \<and> (nodes_to_commit g = [] \<longrightarrow> commit_nodes con g w = (Inr (), g, w))
     \<and> (nodes_to_commit g = [] \<and> edges_to_commit g = [] \<longrightarrow>
          commit con edge_str g w = (Inr (), g, w))"
proof -
  have empty_nodes: "commit_nodes con g w = (Inr (), g, w)" if "nodes_to_commit g = []"
    using that by (simp add: commit_nodes_def commit_list_def)
  have empty_both: "commit con edge_str g w = (Inr (), g, w)"
    if "nodes_to_commit g = []" "edges_to_commit g = []"
    using that by (simp add: commit_def commit_nodes_def commit_edges_def commit_list_def)
  have five: "map length (chunks r ns) = [2, 2, 1]" if "flush_rate g = 2" "length ns = 5"
  proof -
    from that have r2: "r = 2" by (simp add: r_def)
    have d: "(5::nat) div 2 = Suc (Suc 0)" by simp
    have "replicate (5 div 2) (2::nat) = [2, 2]" unfolding d by simp
    moreover have "(5::nat) mod 2 = 1" by simp
    ultimately show ?thesis
      using map_length_chunks [of 2 ns] that(2) by (simp add: r2)
  qed
  have main: "NB = map (create_command g node_str) (chunks r ns)
        \<and> concat (chunks r ns) = ns
        \<and> length NB = nat \<lceil>real (length ns) / real r\<rceil>
        \<and> map length (chunks r ns) =
            replicate (length ns div r) r
            @ (if length ns mod r = 0 then [] else [length ns mod r])
        \<and> (accepts_all con w (NB @ EB) \<longrightarrow>
             commit con edge_str g w =
               (Inr (), g\<lparr>nodes_to_commit := [], edges_to_commit := []\<rparr>, w @ NB @ EB))"
    if pos: "0 < flush_rate g"
  proof -
    from pos have r: "0 < r" by (simp add: r_def)
    have NB: "NB = map (create_command g node_str) (chunks r ns)"
      by (simp add: NB_def batches_def ns_def r_def)
    have "length NB = length (chunks r ns)" by (simp add: NB)
    also have "\<dots> = length ns div r + (if length ns mod r = 0 then 0 else 1)"
      by (rule length_chunks_div [OF r])
    also have "\<dots> = nat \<lceil>real (length ns) / real r\<rceil>"
      by (rule ceiling_nat_div [OF r, symmetric])
    finally have len: "length NB = nat \<lceil>real (length ns) / real r\<rceil>" .
    have run: "commit con edge_str g w =
        (Inr (), g\<lparr>nodes_to_commit := [], edges_to_commit := []\<rparr>, w @ NB @ EB)"
      if acc: "accepts_all con w (NB @ EB)"
    proof -
      from acc have a1: "accepts_all con w NB" and a2: "accepts_all con (w @ NB) EB"
        by (simp_all add: accepts_all_append)
      have n: "commit_nodes con g w = (Inr (), g\<lparr>nodes_to_commit := []\<rparr>, w @ NB)"
        using send_all_accepts [OF a1]
        by (simp add: commit_nodes_def commit_list_send_all [OF pos] NB_def)
      have pos': "0 < flush_rate (g\<lparr>nodes_to_commit := []\<rparr>)" using pos by simp
      have EB': "batches (g\<lparr>nodes_to_commit := []\<rparr>) edge_str (edges_to_commit g) = EB"
        by (simp add: EB_def batches_def create_command_def)
      have e: "commit_edges con edge_str (g\<lparr>nodes_to_commit := []\<rparr>) (w @ NB) =
          (Inr (), g\<lparr>nodes_to_commit := [], edges_to_commit := []\<rparr>, w @ NB @ EB)"
        using send_all_accepts [OF a2]
        by (simp add: commit_edges_def commit_list_send_all [OF pos'] EB')
      show ?thesis by (simp add: commit_def n e)
    qed
    show ?thesis
      using NB len run concat_chunks [OF r, of ns] map_length_chunks [OF r, of ns] by blast
  qed
  show ?thesis using empty_nodes empty_both five main by blast
qed

theorem commit_batches_witness:
  "0 < flush_rate five_pending \<and> map snd (nodes_to_commit five_pending) \<noteq> []
   \<and> accepts_all always_ok []
        (batches five_pending node_str (map snd (nodes_to_commit five_pending))
         @ batches five_pending example_edge_str (edges_to_commit five_pending))
   \<and> commit always_ok example_edge_str five_pending [] =
       (Inr (), five_pending\<lparr>nodes_to_commit := [], edges_to_commit := []\<rparr>,
        [[''GRAPH.QUERY'', ''g'', ''CREATE (a:Person{name:\"a\"}),(b:Person{name:\"b\"})'', ''--compact''],
         [''GRAPH.QUERY'', ''g'', ''CREATE (c:Person{name:\"c\"}),(d:Person{name:\"d\"})'', ''--compact''],
         [''GRAPH.QUERY'', ''g'', ''CREATE (e:Person{name:\"e\"})'', ''--compact'']])
   \<and> flush_rate five_pending = 2 \<and> length (map snd (nodes_to_commit five_pending)) = 5
   \<and> map length (chunks (nat (flush_rate five_pending)) (map snd (nodes_to_commit five_pending)))
       = [2, 2, 1]
   \<and> nodes_to_commit (graph_init ''g'' 2) = [] \<and> edges_to_commit (graph_init ''g'' 2) = []
   \<and> commit_nodes always_ok (graph_init ''g'' 2) [] = (Inr (), graph_init ''g'' 2, [])
   \<and> commit always_ok example_edge_str (graph_init ''g'' 2) [] = (Inr (), graph_init ''g'' 2, [])"
proof -
  have e: "batches five_pending example_edge_str (edges_to_commit five_pending) = []"
    by (simp add: batches_def five_pending_def graph_init_def chunks_Nil)
  have p: "0 < flush_rate five_pending \<and> map snd (nodes_to_commit five_pending) \<noteq> []"
    by (simp add: five_pending_def graph_init_def)
  have a: "accepts_all always_ok []
        (batches five_pending node_str (map snd (nodes_to_commit five_pending))
         @ batches five_pending example_edge_str (edges_to_commit five_pending))"
    unfolding five_pending_batches e by (simp add: always_ok_def)
  have f: "flush_rate five_pending = 2 \<and> length (map snd (nodes_to_commit five_pending)) = 5"
    by (simp add: five_pending_def graph_init_def)
  have n: "nodes_to_commit (graph_init ''g'' 2) = [] \<and> edges_to_commit (graph_init ''g'' 2) = []"
    by (simp add: graph_init_def)
  note five = commit_batches [of five_pending always_ok "[]" example_edge_str]
  note none = commit_batches [of "graph_init ''g'' 2" always_ok "[]" example_edge_str]
  from five p a
  have "commit always_ok example_edge_str five_pending [] =
       (Inr (), five_pending\<lparr>nodes_to_commit := [], edges_to_commit := []\<rparr>,
        [] @ batches five_pending node_str (map snd (nodes_to_commit five_pending))
         @ batches five_pending example_edge_str (edges_to_commit five_pending))"
    by blast
  then have c: "commit always_ok example_edge_str five_pending [] =
       (Inr (), five_pending\<lparr>nodes_to_commit := [], edges_to_commit := []\<rparr>,
        [[''GRAPH.QUERY'', ''g'', ''CREATE (a:Person{name:\"a\"}),(b:Person{name:\"b\"})'', ''--compact''],
         [''GRAPH.QUERY'', ''g'', ''CREATE (c:Person{name:\"c\"}),(d:Person{name:\"d\"})'', ''--compact''],
         [''GRAPH.QUERY'', ''g'', ''CREATE (e:Person{name:\"e\"})'', ''--compact'']])"
    unfolding five_pending_batches e by simp
  from five f
  have s: "map length (chunks (nat (flush_rate five_pending)) (map snd (nodes_to_commit five_pending)))
       = [2, 2, 1]"
    by blast
  from none n
  have z: "commit_nodes always_ok (graph_init ''g'' 2) [] = (Inr (), graph_init ''g'' 2, [])
     \<and> commit always_ok example_edge_str (graph_init ''g'' 2) [] = (Inr (), graph_init ''g'' 2, [])"
    by blast
  from p a c f s n z show ?thesis by blast
qed

lemma commit_nodes_Inl: "commit_nodes con g w = (Inl e, g', w') \<Longrightarrow> g' = g"
  by (auto simp: commit_nodes_def split: prod.splits sum.splits)

lemma commit_edges_Inl: "commit_edges con edge_str g w = (Inl e, g', w') \<Longrightarrow> g' = g"
  by (auto simp: commit_edges_def split: prod.splits sum.splits)

lemma commit_nodes_fails:
  assumes "0 < flush_rate g"
    and "k < length (batches g node_str (map snd (nodes_to_commit g)))"
    and "accepts_all con w (take k (batches g node_str (map snd (nodes_to_commit g))))"
    and "con (w @ take k (batches g node_str (map snd (nodes_to_commit g))))
           (batches g node_str (map snd (nodes_to_commit g)) ! k) = Inl m"
  shows "commit_nodes con g w =
    (Inl (RemoteError m), g, w @ take (Suc k) (batches g node_str (map snd (nodes_to_commit g))))"
  using send_all_fails [OF assms(2-4)]
  by (simp add: commit_nodes_def commit_list_send_all [OF assms(1)])

lemma commit_edges_fails:
  assumes "0 < flush_rate g"
    and "k < length (batches g edge_str (edges_to_commit g))"
    and "accepts_all con w (take k (batches g edge_str (edges_to_commit g)))"
    and "con (w @ take k (batches g edge_str (edges_to_commit g)))
           (batches g edge_str (edges_to_commit g) ! k) = Inl m"
  shows "commit_edges con edge_str g w =
    (Inl (RemoteError m), g, w @ take (Suc k) (batches g edge_str (edges_to_commit g)))"
  using send_all_fails [OF assms(2-4)]
  by (simp add: commit_edges_def commit_list_send_all [OF assms(1)])

lemma commit_nodes_Inr:
  assumes "commit_nodes con g w = (Inr u, g', w')"
  shows "g' = g\<lparr>nodes_to_commit := []\<rparr>
    \<and> (0 < flush_rate g \<longrightarrow>
         accepts_all con w (batches g node_str (map snd (nodes_to_commit g)))
         \<and> w' = w @ batches g node_str (map snd (nodes_to_commit g)))"
proof -
  from assms obtain v
    where l: "commit_list con g node_str (map snd (nodes_to_commit g)) w = (Inr v, w')"
      and g': "g' = g\<lparr>nodes_to_commit := []\<rparr>"
    by (auto simp: commit_nodes_def split: prod.splits sum.splits)
  have "accepts_all con w (batches g node_str (map snd (nodes_to_commit g)))
         \<and> w' = w @ batches g node_str (map snd (nodes_to_commit g))"
    if "0 < flush_rate g"
    using l send_all_Inr [of con _ w v w'] by (simp add: commit_list_send_all [OF that])
  with g' show ?thesis by blast
qed

lemma commit_edges_Inr:
  assumes "commit_edges con edge_str g w = (Inr u, g', w')"
  shows "g' = g\<lparr>edges_to_commit := []\<rparr>
    \<and> (0 < flush_rate g \<longrightarrow>
         accepts_all con w (batches g edge_str (edges_to_commit g))
         \<and> w' = w @ batches g edge_str (edges_to_commit g))"
proof -
  from assms obtain v
    where l: "commit_list con g edge_str (edges_to_commit g) w = (Inr v, w')"
      and g': "g' = g\<lparr>edges_to_commit := []\<rparr>"
    by (auto simp: commit_edges_def split: prod.splits sum.splits)
  have "accepts_all con w (batches g edge_str (edges_to_commit g))
         \<and> w' = w @ batches g edge_str (edges_to_commit g)"
    if "0 < flush_rate g"
    using l send_all_Inr [of con _ w v w'] by (simp add: commit_list_send_all [OF that])
  with g' show ?thesis by blast
qed

text \<open>
  Claim C2. When the transport accepts the first \<open>k\<close> batches of a flush and raises at
  the next one, the flush ends with that failure, after \<open>k + 1\<close> commands, and the
  graph is as it was before the flush; whenever a flush ends with a failure the graph,
  and so both pending collections, are as they were. A flush that returns has emptied
  its pending collection, and (with a positive flush rate) the transport accepted every
  batch of it. This holds for the flush of the nodes and for the flush of the edges.
\<close>

theorem flush_failure_keeps_pending:
  fixes g :: graph and con :: "'r redis_con" and edge_str :: "edge \<Rightarrow> string"
  defines "NB \<equiv> batches g node_str (map snd (nodes_to_commit g))"
    and "EB \<equiv> batches g edge_str (edges_to_commit g)"
  shows
    "(0 < flush_rate g \<and> k < length NB \<and> accepts_all con w (take k NB)
        \<and> con (w @ take k NB) (NB ! k) = Inl m \<longrightarrow>
        commit_nodes con g w = (Inl (RemoteError m), g, w @ take (Suc k) NB))
     \<and> (0 < flush_rate g \<and> k < length EB \<and> accepts_all con w (take k EB)
        \<and> con (w @ take k EB) (EB ! k) = Inl m \<longrightarrow>
        commit_edges con edge_str g w = (Inl (RemoteError m), g, w @ take (Suc k) EB))
     \<and> (commit_nodes con g w = (Inl e, g', w') \<longrightarrow>
          g' = g \<and> nodes_to_commit g' = nodes_to_commit g
          \<and> edges_to_commit g' = edges_to_commit g)
     \<and> (commit_edges con edge_str g w = (Inl e, g', w') \<longrightarrow>
          g' = g \<and> nodes_to_commit g' = nodes_to_commit g
          \<and> edges_to_commit g' = edges_to_commit g)
     \<and> (commit_nodes con g w = (Inr u, g', w') \<longrightarrow>
          g' = g\<lparr>nodes_to_commit := []\<rparr>
          \<and> (0 < flush_rate g \<longrightarrow> accepts_all con w NB \<and> w' = w @ NB))
     \<and> (commit_edges con edge_str g w = (Inr u, g', w') \<longrightarrow>
          g' = g\<lparr>edges_to_commit := []\<rparr>
          \<and> (0 < flush_rate g \<longrightarrow> accepts_all con w EB \<and> w' = w @ EB))"
  unfolding NB_def EB_def
  using commit_nodes_fails [of g k con w m] commit_edges_fails [of g k edge_str con w m]
    commit_nodes_Inl [of con g w e g' w'] commit_edges_Inl [of con edge_str g w e g' w']
    commit_nodes_Inr [of con g w u g' w'] commit_edges_Inr [of con edge_str g w u g' w']
  by blast

theorem flush_failure_keeps_pending_witness:
  "0 < flush_rate five_pending
   \<and> 1 < length (batches five_pending node_str (map snd (nodes_to_commit five_pending)))
   \<and> accepts_all (fails_at 1) []
        (take 1 (batches five_pending node_str (map snd (nodes_to_commit five_pending))))
   \<and> fails_at 1
        ([] @ take 1 (batches five_pending node_str (map snd (nodes_to_commit five_pending))))
        (batches five_pending node_str (map snd (nodes_to_commit five_pending)) ! 1)
       = Inl ''connection lost''
   \<and> commit_nodes (fails_at 1) five_pending [] =
       (Inl (RemoteError ''connection lost''), five_pending,
        [[''GRAPH.QUERY'', ''g'', ''CREATE (a:Person{name:\"a\"}),(b:Person{name:\"b\"})'', ''--compact''],
         [''GRAPH.QUERY'', ''g'', ''CREATE (c:Person{name:\"c\"}),(d:Person{name:\"d\"})'', ''--compact'']])
   \<and> nodes_to_commit five_pending \<noteq> []
   \<and> 0 < flush_rate one_pending_edge
   \<and> 0 < length (batches one_pending_edge example_edge_str (edges_to_commit one_pending_edge))
   \<and> fails_at 0
        ([] @ take 0 (batches one_pending_edge example_edge_str (edges_to_commit one_pending_edge)))
        (batches one_pending_edge example_edge_str (edges_to_commit one_pending_edge) ! 0)
       = Inl ''connection lost''
   \<and> commit_edges (fails_at 0) example_edge_str one_pending_edge [] =
       (Inl (RemoteError ''connection lost''), one_pending_edge,
        [[''GRAPH.QUERY'', ''g'', ''CREATE (a)-[:knows]->(b)'', ''--compact'']])
   \<and> edges_to_commit one_pending_edge \<noteq> []
   \<and> commit_edges always_ok example_edge_str one_pending_edge [] =
       (Inr (), one_pending_edge\<lparr>edges_to_commit := []\<rparr>,
        [[''GRAPH.QUERY'', ''g'', ''CREATE (a)-[:knows]->(b)'', ''--compact'']])
   \<and> accepts_all always_ok []
        (batches one_pending_edge example_edge_str (edges_to_commit one_pending_edge))"
proof -
  have p: "0 < flush_rate five_pending" "nodes_to_commit five_pending \<noteq> []"
    by (simp_all add: five_pending_def graph_init_def)
  have h: "1 < length (batches five_pending node_str (map snd (nodes_to_commit five_pending)))
   \<and> accepts_all (fails_at 1) []
        (take 1 (batches five_pending node_str (map snd (nodes_to_commit five_pending))))
   \<and> fails_at 1
        ([] @ take 1 (batches five_pending node_str (map snd (nodes_to_commit five_pending))))
        (batches five_pending node_str (map snd (nodes_to_commit five_pending)) ! 1)
       = Inl ''connection lost''"
    unfolding five_pending_batches by (simp add: fails_at_def)
  from flush_failure_keeps_pending [of five_pending 1 "fails_at 1" "[]" "''connection lost''"] p h
  have "commit_nodes (fails_at 1) five_pending [] =
       (Inl (RemoteError ''connection lost''), five_pending,
        [] @ take (Suc 1)
          (batches five_pending node_str (map snd (nodes_to_commit five_pending))))"
    by blast
  then have c: "commit_nodes (fails_at 1) five_pending [] =
       (Inl (RemoteError ''connection lost''), five_pending,
        [[''GRAPH.QUERY'', ''g'', ''CREATE (a:Person{name:\"a\"}),(b:Person{name:\"b\"})'', ''--compact''],
         [''GRAPH.QUERY'', ''g'', ''CREATE (c:Person{name:\"c\"}),(d:Person{name:\"d\"})'', ''--compact'']])"
    unfolding five_pending_batches by simp
  have q: "0 < flush_rate one_pending_edge" "edges_to_commit one_pending_edge \<noteq> []"
    by (simp_all add: one_pending_edge_def five_pending_def graph_init_def)
  have i: "0 < length (batches one_pending_edge example_edge_str (edges_to_commit one_pending_edge))
   \<and> accepts_all (fails_at 0) []
        (take 0 (batches one_pending_edge example_edge_str (edges_to_commit one_pending_edge)))
   \<and> fails_at 0
        ([] @ take 0 (batches one_pending_edge example_edge_str (edges_to_commit one_pending_edge)))
        (batches one_pending_edge example_edge_str (edges_to_commit one_pending_edge) ! 0)
       = Inl ''connection lost''"
    unfolding one_pending_edge_batches by (simp add: fails_at_def)
  from flush_failure_keeps_pending
    [of one_pending_edge 0 "fails_at 0" "[]" "''connection lost''" example_edge_str] q i
  have "commit_edges (fails_at 0) example_edge_str one_pending_edge [] =
       (Inl (RemoteError ''connection lost''), one_pending_edge,
        [] @ take (Suc 0)
          (batches one_pending_edge example_edge_str (edges_to_commit one_pending_edge)))"
    by blast
  then have d: "commit_edges (fails_at 0) example_edge_str one_pending_edge [] =
       (Inl (RemoteError ''connection lost''), one_pending_edge,
        [[''GRAPH.QUERY'', ''g'', ''CREATE (a)-[:knows]->(b)'', ''--compact'']])"
    unfolding one_pending_edge_batches by simp
  have ok: "commit_edges always_ok example_edge_str one_pending_edge [] =
       (Inr (), one_pending_edge\<lparr>edges_to_commit := []\<rparr>,
        [[''GRAPH.QUERY'', ''g'', ''CREATE (a)-[:knows]->(b)'', ''--compact'']])"
    by (simp add: commit_edges_def commit_list_send_all [OF q(1)] one_pending_edge_batches
        execute_command_def always_ok_def)
  from flush_failure_keeps_pending
    [where g = one_pending_edge and con = always_ok and w = "[]"
      and edge_str = example_edge_str and u = "()"
      and g' = "one_pending_edge\<lparr>edges_to_commit := []\<rparr>"
      and w' = "[[''GRAPH.QUERY'', ''g'', ''CREATE (a)-[:knows]->(b)'', ''--compact'']]"] ok q
  have acc: "accepts_all always_ok []
        (batches one_pending_edge example_edge_str (edges_to_commit one_pending_edge))"
    by blast
  from p h c q i d ok acc show ?thesis by blast
qed

section \<open>Adding an edge\<close>

lemma nodes_get_None: "nodes_get d k = None \<longleftrightarrow> k \<notin> Some ` fst ` set d"
  by (cases k) (auto simp: nodes_get_def map_of_eq_None_iff)

lemma nodes_get_Some: "(\<exists>n. nodes_get d k = Some n) \<longleftrightarrow> k \<in> Some ` fst ` set d"
  using nodes_get_None [of d k] by auto

text \<open>
  Claim C5. With validation on, \<open>add_edge\<close> fails with an assertion error when the alias
  of the source or of the destination is not a key of the node table; when both are
  keys it succeeds and the edge is appended to the edges and to the pending edges.
\<close>

theorem add_edge_validates:
  "((alias (src_node e) \<notin> Some ` fst ` set (nodes g)
      \<or> alias (dest_node e) \<notin> Some ` fst ` set (nodes g)) \<longrightarrow>
     add_edge g e True = Inl AssertionError)
   \<and> (alias (src_node e) \<in> Some ` fst ` set (nodes g)
       \<and> alias (dest_node e) \<in> Some ` fst ` set (nodes g) \<longrightarrow>
       add_edge g e True =
         Inr (g\<lparr>edges := edges g @ [e], edges_to_commit := edges_to_commit g @ [e]\<rparr>))"
  by (auto simp: add_edge_def Let_def nodes_get_None nodes_get_Some)

theorem add_edge_validates_witness:
  "add_edge five_pending (knows (person ''a'') (person ''z'')) True = Inl AssertionError
   \<and> add_edge five_pending (knows (person ''a'') (person ''b'')) True =
       Inr (five_pending\<lparr>edges := [knows (person ''a'') (person ''b'')],
                         edges_to_commit := [knows (person ''a'') (person ''b'')]\<rparr>)"
  using add_edge_validates [of "knows (person ''a'') (person ''z'')" five_pending]
    add_edge_validates [of "knows (person ''a'') (person ''b'')" five_pending]
  by (simp add: five_pending_def graph_init_def knows_def person_def)

section \<open>Deleting the graph\<close>

text \<open>
  Claim C9. \<open>delete\<close> leaves the local state empty (no nodes, no edges, nothing
  pending, empty caches, the recreate flag off; name and flush rate kept) and has issued
  the remote delete command, whatever the transport answers: also when the remote
  command raises, in which case the failure is the outcome of the call.
\<close>

theorem delete_resets:
  "delete con g w =
     (case con w [''GRAPH.DELETE'', name g] of Inl m \<Rightarrow> Inl (RemoteError m) | Inr r \<Rightarrow> Inr r,
      \<lparr>name = name g, flush_rate = flush_rate g, recreate_flag = False, nodes = [],
         edges = [], labels = [], properties_cache = [], relationshipTypes = [],
         nodes_to_commit = [], edges_to_commit = []\<rparr>,
      w @ [[''GRAPH.DELETE'', name g]])
   \<and> (con w [''GRAPH.DELETE'', name g] = Inl m \<longrightarrow>
        delete con g w =
          (Inl (RemoteError m),
           \<lparr>name = name g, flush_rate = flush_rate g, recreate_flag = False, nodes = [],
              edges = [], labels = [], properties_cache = [], relationshipTypes = [],
              nodes_to_commit = [], edges_to_commit = []\<rparr>,
           w @ [[''GRAPH.DELETE'', name g]]))"
  by (simp add: delete_def initialize_def execute_command_def split: sum.splits)

theorem delete_resets_witness:
  "fails_at 0 [] [''GRAPH.DELETE'', name five_pending] = Inl ''connection lost''
   \<and> delete (fails_at 0) five_pending [] =
        (Inl (RemoteError ''connection lost''), graph_init ''g'' 2, [[''GRAPH.DELETE'', ''g'']])"
  using delete_resets [of "fails_at 0" five_pending "[]" "''connection lost''"]
  by (simp add: fails_at_def five_pending_def graph_init_def)

end
